theory Spec2Isabelle
  imports Complex_Main
begin

section \<open>Data model of client/utils/avalanche.ts\<close>

text \<open>
  The TypeScript type \<open>number\<close> is modelled by \<open>real\<close> where the code computes with
  fractions (sizes, health metrics) and by \<open>nat\<close> or \<open>int\<close> where only whole values
  occur (progress, block counters). NaN and the infinities are left out. Rounding to
  doubles is modelled in \<open>calculateEstimatedTime\<close>, whose result depends on it, and not in
  the health metrics. Strings are \<open>string\<close>.
\<close>

record ISROSubnetConfig =
  validators :: "string list"
  minStake :: string
  uptimeRequirement :: real
  name :: string

datatype priority = Low | Medium | High | Critical

datatype encryptionType = AES_256 | ChaCha20_Poly1305

record TransferRequest =
  id_req :: string
  fromStation :: string
  toStation :: string
  dataSize :: real
  priority :: priority
  encryptionType :: encryptionType
  timestamp :: int
  checksum :: string

text \<open>The union of string literals \<open>'pending' | 'processing' | 'completed' | 'failed'\<close>.\<close>

datatype status = Pending | Processing | Completed | Failed

fun status_literal :: "status \<Rightarrow> string" where
  "status_literal Pending = ''pending''"
| "status_literal Processing = ''processing''"
| "status_literal Completed = ''completed''"
| "status_literal Failed = ''failed''"

record TransferStatus =
  requestId :: string
  status :: status
  progress :: nat
  currentStation :: string
  nextStation :: string
  estimatedTime :: int
  error :: "string option"

record SubnetHealth =
  stationId :: string
  uptime :: real
  lastBlock :: int
  validatorCount :: nat
  consensusRate :: real
  networkLatency :: real
  dataThroughput :: real

text \<open>
  \<open>ISRO_SUBNET_CONFIG\<close>, in declaration order (the order of \<open>Object.keys\<close> and
  \<open>Object.entries\<close>). The fields \<open>subnetId\<close>, \<open>chainId\<close>, \<open>rpcUrl\<close> and
  \<open>lastBlock\<close> of a station are read by none of the operations below and are left out.
\<close>

definition station_validators :: "string list" where
  "station_validators =
     [''0xC0c5Ae331EC9754E8bbB043dC531C4C5bBaD10c7'',
      ''0x11e076A2c22DcA205051B689D88f40A4cD6C844b'',
      ''0xaa4D50bF097296cc0349701Da0de9Ca5Cfc65D7A'',
      ''0xe75dF2dC382b8AD3143f05E4229952A2A44c4E3E'']"

definition station_config :: "string \<Rightarrow> ISROSubnetConfig" where
  "station_config display_name =
     \<lparr>validators = station_validators, minStake = ''2000000000000000000000000'',
      uptimeRequirement = 0.95, name = display_name\<rparr>"

definition ISRO_SUBNET_CONFIG :: "(string \<times> ISROSubnetConfig) list" where
  "ISRO_SUBNET_CONFIG =
     [(''bangalore'', station_config ''ISRO Bangalore''),
      (''chennai'', station_config ''ISRO Chennai''),
      (''delhi'', station_config ''ISRO Delhi''),
      (''sriharikota'', station_config ''ISRO Sriharikota'')]"

text \<open>
  \<open>ISRO_SUBNET_CONFIG\<close> is an object literal, so the JavaScript operator \<open>in\<close> also
  finds the property names it inherits from \<open>Object.prototype\<close>.
\<close>

definition Object_prototype_properties :: "string list" where
  "Object_prototype_properties =
     [''constructor'', ''hasOwnProperty'', ''isPrototypeOf'', ''propertyIsEnumerable'',
      ''toLocaleString'', ''toString'', ''valueOf'', ''__proto__'',
      ''__defineGetter__'', ''__defineSetter__'', ''__lookupGetter__'', ''__lookupSetter__'']"

definition in_ISRO_SUBNET_CONFIG :: "string \<Rightarrow> bool" where
  "in_ISRO_SUBNET_CONFIG key \<longleftrightarrow>
     key \<in> set (map fst ISRO_SUBNET_CONFIG) \<or> key \<in> set Object_prototype_properties"

section \<open>SubnetHealthMonitor\<close>

text \<open>
  \<open>Math.random()\<close> is a sequence of draws \<open>rnd 0, rnd 1, \<dots>\<close> with a position that
  every call advances; \<open>Date.now()\<close> is the parameter \<open>now\<close> of each operation.
\<close>

type_synonym healthData = "string \<rightharpoonup> SubnetHealth"

fun initializeHealthMonitoring_loop ::
  "(string \<times> ISROSubnetConfig) list \<Rightarrow> int \<Rightarrow> (nat \<Rightarrow> real) \<Rightarrow> healthData \<times> nat \<Rightarrow> healthData \<times> nat"
where
  "initializeHealthMonitoring_loop [] now rnd (h, n) = (h, n)"
| "initializeHealthMonitoring_loop ((sid, cfg) # rest) now rnd (h, n) =
     initializeHealthMonitoring_loop rest now rnd
       (h(sid \<mapsto> \<lparr>stationId = sid, uptime = 0.99, lastBlock = now,
                   validatorCount = length (validators cfg), consensusRate = 0.98,
                   networkLatency = 50 + rnd n * 50,
                   dataThroughput = 500 + rnd (n + 1) * 500\<rparr>), n + 2)"

definition initializeHealthMonitoring :: "int \<Rightarrow> (nat \<Rightarrow> real) \<Rightarrow> healthData \<times> nat" where
  "initializeHealthMonitoring now rnd =
     initializeHealthMonitoring_loop ISRO_SUBNET_CONFIG now rnd (Map.empty, 0)"

definition checkStationHealth ::
  "healthData \<Rightarrow> (nat \<Rightarrow> real) \<Rightarrow> nat \<Rightarrow> int \<Rightarrow> string \<Rightarrow> ISROSubnetConfig \<Rightarrow> SubnetHealth \<times> nat"
where
  "checkStationHealth h rnd n now sid cfg =
     (let (baseHealth, k) =
            (case h sid of
               Some b \<Rightarrow> (b, n)
             | None \<Rightarrow>
                 (\<lparr>stationId = sid, uptime = 0.99, lastBlock = now,
                   validatorCount = length (validators cfg), consensusRate = 0.98,
                   networkLatency = rnd n * 100 + 50,
                   dataThroughput = rnd (n + 1) * 1000 + 500\<rparr>, n + 2))
      in (baseHealth
            \<lparr>uptime := max 0.97 (min 1.0 (uptime baseHealth + (rnd k - 0.5) * 0.01)),
             lastBlock := lastBlock baseHealth + \<lfloor>rnd (k + 1) * 100\<rfloor>,
             consensusRate :=
               max 0.97 (min 1.0 (consensusRate baseHealth + (rnd (k + 2) - 0.5) * 0.02)),
             networkLatency :=
               max 30 (min 150 (networkLatency baseHealth + (rnd (k + 3) - 0.5) * 20)),
             dataThroughput :=
               max 200 (min 2000 (dataThroughput baseHealth + (rnd (k + 4) - 0.5) * 100))\<rparr>,
          k + 5))"

text \<open>
  \<open>updateHealthData\<close>: the \<open>catch\<close> branch is not modelled, \<open>checkStationHealth\<close>
  raises nothing.
\<close>

fun updateHealthData_loop ::
  "(string \<times> ISROSubnetConfig) list \<Rightarrow> int \<Rightarrow> (nat \<Rightarrow> real) \<Rightarrow> healthData \<times> nat \<Rightarrow> healthData \<times> nat"
where
  "updateHealthData_loop [] now rnd (h, n) = (h, n)"
| "updateHealthData_loop ((sid, cfg) # rest) now rnd (h, n) =
     (let (health, k) = checkStationHealth h rnd n now sid cfg
      in updateHealthData_loop rest now rnd (h(sid \<mapsto> health), k))"

definition updateHealthData :: "int \<Rightarrow> (nat \<Rightarrow> real) \<Rightarrow> healthData \<times> nat \<Rightarrow> healthData \<times> nat" where
  "updateHealthData now rnd hn = updateHealthData_loop ISRO_SUBNET_CONFIG now rnd hn"

text \<open>
  The monitor after \<open>ticks\<close> runs of the 5-second interval; \<open>clock k\<close> is the value of
  \<open>Date.now()\<close> during the \<open>k\<close>-th run (\<open>clock 0\<close> at construction).
\<close>

fun monitor_after :: "(nat \<Rightarrow> int) \<Rightarrow> (nat \<Rightarrow> real) \<Rightarrow> nat \<Rightarrow> healthData \<times> nat" where
  "monitor_after clock rnd 0 = initializeHealthMonitoring (clock 0) rnd"
| "monitor_after clock rnd (Suc ticks) =
     updateHealthData (clock (Suc ticks)) rnd (monitor_after clock rnd ticks)"

definition isStationHealthy :: "healthData \<Rightarrow> string \<Rightarrow> bool" where
  "isStationHealthy h sid =
     (case h sid of
        None \<Rightarrow> False
      | Some health \<Rightarrow>
          uptime health \<ge> 0.95 \<and> consensusRate health \<ge> 0.95 \<and> networkLatency health < 150)"

definition metrics_in_range :: "SubnetHealth \<Rightarrow> bool" where
  "metrics_in_range health \<longleftrightarrow>
     0.97 \<le> uptime health \<and> uptime health \<le> 1.0 \<and>
     0.97 \<le> consensusRate health \<and> consensusRate health \<le> 1.0 \<and>
     30 \<le> networkLatency health \<and> networkLatency health \<le> 150 \<and>
     200 \<le> dataThroughput health \<and> dataThroughput health \<le> 2000"

section \<open>SecureTransferManager: routing and validation\<close>

definition getTransferRoute :: "string \<Rightarrow> string \<Rightarrow> string list" where
  "getTransferRoute fromSt toSt =
     (if fromSt = toSt then [fromSt]
      else if fromSt = ''bangalore'' \<or> toSt = ''bangalore'' then [fromSt, toSt]
      else [fromSt, ''bangalore'', toSt])"

text \<open>The copy of the routing rule in the hook \<open>useAvalancheSubnet\<close>.\<close>

definition hook_getTransferRoute :: "string \<Rightarrow> string \<Rightarrow> string list" where
  "hook_getTransferRoute fromSt toSt =
     (if fromSt = toSt then [fromSt]
      else if fromSt = ''bangalore'' \<or> toSt = ''bangalore'' then [fromSt, toSt]
      else [fromSt, ''bangalore'', toSt])"

definition validateTransferRequest :: "TransferRequest \<Rightarrow> bool" where
  "validateTransferRequest request \<longleftrightarrow>
     length (id_req request) > 0 \<and>
     in_ISRO_SUBNET_CONFIG (fromStation request) \<and>
     in_ISRO_SUBNET_CONFIG (toStation request) \<and>
     dataSize request > 0 \<and>
     dataSize request \<le> 100 * 1024 * 1024 * 1024"

text \<open>
  \<open>calculateEstimatedTime\<close> divides and multiplies doubles, and every operation rounds
  its exact result to the nearest double, ties to the even significand. \<open>to_double\<close> is
  that rounding for results within the range of the finite doubles (53 significant bits,
  least exponent \<open>- 1022\<close>); the sizes that reach \<open>calculateEstimatedTime\<close> are doubles
  that have passed the validation, so nothing overflows. The literal \<open>0.7\<close> is the double nearest to
  \<open>7 / 10\<close>; \<open>1.5\<close>, \<open>1.0\<close>, \<open>0.5\<close> and \<open>60\<close> are doubles.
\<close>

definition round_half_even :: "real \<Rightarrow> int" where
  "round_half_even y =
     (let f = \<lfloor>y\<rfloor>
      in if y - of_int f < 1 / 2 then f
         else if 1 / 2 < y - of_int f then f + 1
         else if even f then f else f + 1)"

text \<open>
  The exponent \<open>e\<close> with \<open>2^e \<le> |x| < 2^(e + 1)\<close>, from \<open>- 1022\<close> (which also
  serves the subnormal numbers below it) to 1023.
\<close>

definition binade :: "real \<Rightarrow> int" where
  "binade x =
     (case find (\<lambda>e. 2 powi e \<le> \<bar>x\<bar> \<and> \<bar>x\<bar> < 2 powi (e + 1)) [- 1022..1023] of
        None \<Rightarrow> - 1022
      | Some e \<Rightarrow> e)"

definition to_double :: "real \<Rightarrow> real" where
  "to_double x =
     (if x = 0 then 0
      else let ulp = 2 powi (binade x - 52)
           in of_int (round_half_even (x / ulp)) * ulp)"

definition priorityMultiplier :: "priority \<Rightarrow> real" where
  "priorityMultiplier p =
     (case p of Low \<Rightarrow> 1.5 | Medium \<Rightarrow> 1.0 | High \<Rightarrow> to_double 0.7 | Critical \<Rightarrow> 0.5)"

definition calculateEstimatedTime :: "TransferRequest \<Rightarrow> int" where
  "calculateEstimatedTime request =
     (let baseTime = to_double (dataSize request / (100 * 1024 * 1024))
      in \<lceil>to_double (to_double (baseTime * priorityMultiplier (priority request)) * 60)\<rceil>)"

section \<open>SecureTransferManager: state and operations\<close>

text \<open>
  A \<open>TransferStatus\<close> is a JavaScript object: the map \<open>activeTransfers\<close> and every
  running \<open>executeTransfer\<close> hold references to it and see each other's assignments.
  The model keeps the objects in a store, \<open>objects\<close>, indexed by reference; \<open>next_object\<close>
  is the reference the next object literal gets.

  The \<open>async\<close> methods run without interruption up to an \<open>await\<close> that really waits, and
  the only such \<open>await\<close> is the \<open>setTimeout\<close> of \<open>simulateStationTransfer\<close>. A \<open>task\<close>
  is an \<open>executeTransfer\<close> waiting there: its \<open>request.id\<close>, its \<open>status\<close> reference,
  its \<open>stations\<close> and the loop counters \<open>i\<close> and \<open>step\<close>.
\<close>

record task =
  task_request_id :: string
  task_status :: nat
  task_stations :: "string list"
  task_i :: nat
  task_step :: nat

record SecureTransferManager =
  objects :: "nat \<rightharpoonup> TransferStatus"
  next_object :: nat
  activeTransfers :: "string \<rightharpoonup> nat"
  transferQueue :: "TransferRequest list"
  suspended :: "task list"

definition new_manager :: SecureTransferManager where
  "new_manager =
     \<lparr>objects = Map.empty, next_object = 0, activeTransfers = Map.empty,
      transferQueue = [], suspended = []\<rparr>"

datatype transfer_error = Invalid_transfer_request | Stations_unhealthy

fun error_message :: "transfer_error \<Rightarrow> string" where
  "error_message Invalid_transfer_request = ''Invalid transfer request''"
| "error_message Stations_unhealthy = ''One or both stations are unhealthy''"

text \<open>An assignment to fields of the object behind a reference.\<close>

definition assign :: "nat \<Rightarrow> (TransferStatus \<Rightarrow> TransferStatus) \<Rightarrow> SecureTransferManager \<Rightarrow> SecureTransferManager" where
  "assign ref f m =
     (case objects m ref of
        None \<Rightarrow> m
      | Some s \<Rightarrow> m\<lparr>objects := (objects m)(ref \<mapsto> f s)\<rparr>)"

definition getTransferStatus :: "SecureTransferManager \<Rightarrow> string \<Rightarrow> TransferStatus option" where
  "getTransferStatus m transferId =
     (case activeTransfers m transferId of
        None \<Rightarrow> None
      | Some ref \<Rightarrow> objects m ref)"

definition transferSteps :: nat where
  "transferSteps = 10"

text \<open>
  One iteration of the loop of \<open>simulateStationTransfer\<close>, up to its \<open>await\<close>:
  \<open>status.progress = Math.min(100, (step + 1) * (100 / transferSteps))\<close> and
  \<open>this.activeTransfers.set(status.requestId, status)\<close>.
\<close>

definition simulateStationTransfer_iteration :: "nat \<Rightarrow> nat \<Rightarrow> SecureTransferManager \<Rightarrow> SecureTransferManager" where
  "simulateStationTransfer_iteration ref step m =
     (let m1 = assign ref (\<lambda>s. s\<lparr>progress := min 100 ((step + 1) * (100 div transferSteps))\<rparr>) m
      in case objects m1 ref of
           None \<Rightarrow> m1
         | Some s \<Rightarrow> m1\<lparr>activeTransfers := (activeTransfers m1)(requestId s \<mapsto> ref)\<rparr>)"

text \<open>
  The loop of \<open>executeTransfer\<close> from the test \<open>i < stations.length - 1\<close> on, written
  \<open>i + 1 < length stations\<close> since \<open>nat\<close> subtraction truncates. Inside the body the first
  iteration of \<open>simulateStationTransfer\<close> runs and the task waits; past the loop,
  \<open>this.activeTransfers.set(request.id, status)\<close> ends the method.
\<close>

definition executeTransfer_loop ::
  "string \<Rightarrow> nat \<Rightarrow> string list \<Rightarrow> nat \<Rightarrow> SecureTransferManager \<Rightarrow> SecureTransferManager" where
  "executeTransfer_loop request_id ref stations i m =
     (if i + 1 < length stations then
        let m1 = assign ref (\<lambda>s. s\<lparr>currentStation := stations ! i,
                                   nextStation := stations ! (i + 1)\<rparr>) m;
            m2 = simulateStationTransfer_iteration ref 0 m1
        in m2\<lparr>suspended := suspended m2 @
                 [\<lparr>task_request_id = request_id, task_status = ref, task_stations = stations,
                   task_i = i, task_step = 0\<rparr>]\<rparr>
      else m\<lparr>activeTransfers := (activeTransfers m)(request_id \<mapsto> ref)\<rparr>)"

definition executeTransfer :: "TransferRequest \<Rightarrow> nat \<Rightarrow> SecureTransferManager \<Rightarrow> SecureTransferManager" where
  "executeTransfer request ref m =
     (let m1 = assign ref (\<lambda>s. s\<lparr>status := Processing\<rparr>) m;
          stations = getTransferRoute (fromStation request) (toStation request)
      in executeTransfer_loop (id_req request) ref stations 0 m1)"

text \<open>
  \<open>processTransferQueue\<close>. Nothing in \<open>executeTransfer\<close> raises, so the \<open>catch\<close>
  branch is not modelled.
\<close>

definition processTransferQueue :: "SecureTransferManager \<Rightarrow> SecureTransferManager" where
  "processTransferQueue m =
     (case transferQueue m of
        [] \<Rightarrow> m
      | request # rest \<Rightarrow>
          let m1 = m\<lparr>transferQueue := rest\<rparr>
          in (case activeTransfers m1 (id_req request) of
                None \<Rightarrow> m1
              | Some ref \<Rightarrow> executeTransfer request ref m1))"

text \<open>
  \<open>initiateTransfer\<close>, lines 247 to 259: the new \<open>TransferStatus\<close> object,
  \<open>activeTransfers.set\<close> and \<open>transferQueue.push\<close>.
\<close>

definition register_transfer :: "TransferRequest \<Rightarrow> SecureTransferManager \<Rightarrow> SecureTransferManager" where
  "register_transfer request m =
     (let transferStatus =
            \<lparr>requestId = id_req request, status = Pending, progress = 0,
             currentStation = fromStation request, nextStation = toStation request,
             estimatedTime = calculateEstimatedTime request, error = None\<rparr>;
          ref = next_object m
      in m\<lparr>objects := (objects m)(ref \<mapsto> transferStatus),
           next_object := Suc ref,
           activeTransfers := (activeTransfers m)(id_req request \<mapsto> ref),
           transferQueue := transferQueue m @ [request]\<rparr>)"

text \<open>
  \<open>initiateTransfer\<close>: a \<open>throw\<close> is the result \<open>Inl\<close>, with the manager as it was; the
  health data are those of the \<open>SubnetHealthMonitor\<close> at the time of the call.
\<close>

definition initiateTransfer ::
  "healthData \<Rightarrow> TransferRequest \<Rightarrow> SecureTransferManager \<Rightarrow> (transfer_error + string) \<times> SecureTransferManager" where
  "initiateTransfer h request m =
     (if \<not> validateTransferRequest request then (Inl Invalid_transfer_request, m)
      else if \<not> isStationHealthy h (fromStation request) \<or> \<not> isStationHealthy h (toStation request)
      then (Inl Stations_unhealthy, m)
      else (Inr (id_req request), processTransferQueue (register_transfer request m)))"

definition cancelTransfer :: "string \<Rightarrow> SecureTransferManager \<Rightarrow> bool \<times> SecureTransferManager" where
  "cancelTransfer transferId m =
     (case activeTransfers m transferId of
        None \<Rightarrow> (False, m)
      | Some ref \<Rightarrow>
          (case objects m ref of
             None \<Rightarrow> (False, m)
           | Some s \<Rightarrow>
               if status s = Pending then
                 (True,
                  m\<lparr>objects := (objects m)(ref \<mapsto> s\<lparr>status := Failed,
                                                     error := Some ''Transfer cancelled by user''\<rparr>),
                    activeTransfers := (activeTransfers m)(transferId \<mapsto> ref)\<rparr>)
               else (False, m)))"

text \<open>
  A task whose timer has fired goes on after the \<open>await\<close>: the next iteration of
  \<open>simulateStationTransfer\<close>, or, after the last one, the rest of the body of the loop of
  \<open>executeTransfer\<close> (\<open>i === stations.length - 2\<close> is written \<open>i + 2 = length stations\<close>)
  and the loop again from \<open>i + 1\<close>.
\<close>

definition resume :: "task \<Rightarrow> SecureTransferManager \<Rightarrow> SecureTransferManager" where
  "resume t m =
     (let ref = task_status t; step = task_step t + 1
      in if step < transferSteps then
           let m1 = simulateStationTransfer_iteration ref step m
           in m1\<lparr>suspended := suspended m1 @ [t\<lparr>task_step := step\<rparr>]\<rparr>
         else
           let i = task_i t;
               m1 = (if i + 2 = length (task_stations t)
                     then assign ref (\<lambda>s. s\<lparr>status := Completed, progress := 100\<rparr>) m
                     else m)
           in executeTransfer_loop (task_request_id t) ref (task_stations t) (i + 1) m1)"

text \<open>
  The timer of the \<open>k\<close>-th waiting task fires. All delays are equal, so JavaScript fires
  the timers in the order they were set, which is \<open>k = 0\<close>; the invariants below hold for
  every order.
\<close>

definition timer_fires :: "nat \<Rightarrow> SecureTransferManager \<Rightarrow> SecureTransferManager" where
  "timer_fires k m =
     (if k < length (suspended m)
      then resume (suspended m ! k)
             (m\<lparr>suspended := take k (suspended m) @ drop (Suc k) (suspended m)\<rparr>)
      else m)"

text \<open>
  \<open>stopTransfer\<close> of the hook \<open>useAvalancheSubnet\<close>. The hook keeps in its state
  \<open>activeTransfers\<close> the array that \<open>getAllTransfers\<close> returned at its last poll: the
  objects of the manager themselves, here the list \<open>snapshot\<close> of their references. It
  takes the first of them carrying the id and, when its status is \<open>'processing'\<close>,
  assigns \<open>'failed'\<close> and the error message to it, so to the object of the manager. The
  state of the hook other than that array is not modelled.
\<close>

definition stopped :: "TransferStatus \<Rightarrow> TransferStatus" where
  "stopped s = s\<lparr>status := Failed, error := Some ''Transfer stopped by user''\<rparr>"

definition hook_stopTransfer ::
  "nat list \<Rightarrow> string \<Rightarrow> SecureTransferManager \<Rightarrow> bool \<times> SecureTransferManager" where
  "hook_stopTransfer snapshot transferId m =
     (case find (\<lambda>ref. case objects m ref of
                          None \<Rightarrow> False
                        | Some t \<Rightarrow> requestId t = transferId) snapshot of
        None \<Rightarrow> (False, m)
      | Some ref \<Rightarrow>
          (case objects m ref of
             None \<Rightarrow> (False, m)
           | Some transfer \<Rightarrow>
               if status transfer = Processing
               then (True, m\<lparr>objects := (objects m)(ref \<mapsto> stopped transfer)\<rparr>)
               else (False, m)))"

text \<open>
  What happens to a manager: calls of its two public methods, timers, and calls of
  \<open>stopTransfer\<close> of the hook, whatever references the hook holds.
\<close>

datatype event =
  Initiate healthData TransferRequest | Cancel string | Timer nat | Stop "nat list" string

fun step :: "event \<Rightarrow> SecureTransferManager \<Rightarrow> SecureTransferManager" where
  "step (Initiate h request) m = snd (initiateTransfer h request m)"
| "step (Cancel transferId) m = snd (cancelTransfer transferId m)"
| "step (Timer k) m = timer_fires k m"
| "step (Stop snapshot transferId) m = snd (hook_stopTransfer snapshot transferId m)"

fun run :: "event list \<Rightarrow> SecureTransferManager \<Rightarrow> SecureTransferManager" where
  "run [] m = m"
| "run (e # es) m = run es (step e m)"

definition status_and_progress :: "SecureTransferManager \<Rightarrow> string \<Rightarrow> (status \<times> nat) option" where
  "status_and_progress m transferId =
     (case getTransferStatus m transferId of
        None \<Rightarrow> None
      | Some s \<Rightarrow> Some (status s, progress s))"

section \<open>Invariants of the manager\<close>

text \<open>
  What holds of a manager after any sequence of events, starting from \<open>new_manager\<close>:
  the queue is empty between events; waiting tasks hold distinct objects, allocated
  earlier, not yet completed and carrying the task's request id; every reference stored
  in \<open>activeTransfers\<close> was allocated earlier.
\<close>

definition tasks_wf :: "SecureTransferManager \<Rightarrow> bool" where
  "tasks_wf m \<longleftrightarrow>
     transferQueue m = [] \<and>
     distinct (map task_status (suspended m)) \<and>
     (\<forall>t \<in> set (suspended m).
        task_status t < next_object m \<and>
        (\<forall>s. objects m (task_status t) = Some s \<longrightarrow>
               status s \<noteq> Completed \<and> requestId s = task_request_id t)) \<and>
     (\<forall>i ref. activeTransfers m i = Some ref \<longrightarrow> ref < next_object m)"

definition completed_full :: "SecureTransferManager \<Rightarrow> bool" where
  "completed_full m \<longleftrightarrow>
     (\<forall>ref s. objects m ref = Some s \<longrightarrow> status s = Completed \<longrightarrow> progress s = 100)"

definition manager_invariant :: "SecureTransferManager \<Rightarrow> bool" where
  "manager_invariant m \<longleftrightarrow> tasks_wf m \<and> completed_full m"






section \<open>Example inputs\<close>

text \<open>
  The health data right after the monitor is constructed, with every draw of
  \<open>Math.random()\<close> equal to \<open>1 / 2\<close>, and a request with the given id, stations and
  size.
\<close>

definition example_health :: healthData where
  "example_health = fst (initializeHealthMonitoring 0 (\<lambda>k. 1 / 2))"

definition example_request :: "string \<Rightarrow> string \<Rightarrow> string \<Rightarrow> real \<Rightarrow> TransferRequest" where
  "example_request i src dst size_in_bytes =
     \<lparr>id_req = i, fromStation = src, toStation = dst, dataSize = size_in_bytes,
      priority = High, encryptionType = AES_256, timestamp = 0, checksum = ''0x00...''\<rparr>"

section \<open>Health monitor: the metrics stay in range\<close>

lemma checkStationHealth_in_range:
  "metrics_in_range (fst (checkStationHealth h rnd n now sid cfg))"
  by (auto simp add: checkStationHealth_def metrics_in_range_def Let_def max_def min_def
      split: option.split)

lemma updateHealthData_loop_in_range:
  "\<forall>sid b. h sid = Some b \<longrightarrow> metrics_in_range b \<Longrightarrow>
   fst (updateHealthData_loop entries now rnd (h, n)) sid = Some b \<Longrightarrow> metrics_in_range b"
proof (induction entries arbitrary: h n)
  case Nil
  then show ?case by simp
next
  case (Cons e entries)
  obtain key cfg where e: "e = (key, cfg)" by (cases e)
  obtain health k where c: "checkStationHealth h rnd n now key cfg = (health, k)"
    by (cases "checkStationHealth h rnd n now key cfg")
  have "metrics_in_range health"
    using checkStationHealth_in_range [of h rnd n now key cfg] c by simp
  then have "\<forall>sid b. (h(key \<mapsto> health)) sid = Some b \<longrightarrow> metrics_in_range b"
    using Cons.prems(1) by simp
  moreover have "fst (updateHealthData_loop entries now rnd (h(key \<mapsto> health), k)) sid = Some b"
    using Cons.prems(2) e c by simp
  ultimately show ?case by (rule Cons.IH)
qed

lemma updateHealthData_loop_dom:
  "dom (fst (updateHealthData_loop entries now rnd (h, n))) = dom h \<union> set (map fst entries)"
proof (induction entries arbitrary: h n)
  case Nil
  then show ?case by simp
next
  case (Cons e entries)
  obtain key cfg where e: "e = (key, cfg)" by (cases e)
  obtain health k where c: "checkStationHealth h rnd n now key cfg = (health, k)"
    by (cases "checkStationHealth h rnd n now key cfg")
  have "dom (fst (updateHealthData_loop entries now rnd (h(key \<mapsto> health), k)))
          = dom (h(key \<mapsto> health)) \<union> set (map fst entries)"
    by (rule Cons.IH)
  then show ?case by (simp add: e c)
qed

lemma initializeHealthMonitoring_loop_in_range:
  "\<forall>k. 0 \<le> rnd k \<and> rnd k < 1 \<Longrightarrow>
   \<forall>sid b. h sid = Some b \<longrightarrow> metrics_in_range b \<Longrightarrow>
   fst (initializeHealthMonitoring_loop entries now rnd (h, n)) sid = Some b \<Longrightarrow> metrics_in_range b"
proof (induction entries arbitrary: h n)
  case Nil
  then show ?case by simp
next
  case (Cons e entries)
  obtain key cfg where e: "e = (key, cfg)" by (cases e)
  let ?new = "\<lparr>stationId = key, uptime = 0.99, lastBlock = now,
                validatorCount = length (validators cfg), consensusRate = 0.98,
                networkLatency = 50 + rnd n * 50,
                dataThroughput = 500 + rnd (n + 1) * 500\<rparr>"
  have r0: "0 \<le> rnd n" "rnd n < 1" "0 \<le> rnd (n + 1)" "rnd (n + 1) < 1"
    using Cons.prems(1) by auto
  have "metrics_in_range ?new"
    using r0 by (simp add: metrics_in_range_def)
  then have "\<forall>sid b. (h(key \<mapsto> ?new)) sid = Some b \<longrightarrow> metrics_in_range b"
    using Cons.prems(2) by simp
  moreover have "fst (initializeHealthMonitoring_loop entries now rnd (h(key \<mapsto> ?new), n + 2)) sid = Some b"
    using Cons.prems(3) e by simp
  ultimately show ?case using Cons.IH [OF Cons.prems(1)] by blast
qed

lemma initializeHealthMonitoring_loop_dom:
  "dom (fst (initializeHealthMonitoring_loop entries now rnd (h, n))) = dom h \<union> set (map fst entries)"
proof (induction entries arbitrary: h n)
  case Nil
  then show ?case by simp
next
  case (Cons e entries)
  obtain key cfg where e: "e = (key, cfg)" by (cases e)
  let ?new = "\<lparr>stationId = key, uptime = 0.99, lastBlock = now,
                validatorCount = length (validators cfg), consensusRate = 0.98,
                networkLatency = 50 + rnd n * 50,
                dataThroughput = 500 + rnd (n + 1) * 500\<rparr>"
  have "dom (fst (initializeHealthMonitoring_loop entries now rnd (h(key \<mapsto> ?new), n + 2)))
          = dom (h(key \<mapsto> ?new)) \<union> set (map fst entries)"
    by (rule Cons.IH)
  then show ?case by (simp add: e)
qed

lemma monitor_after_dom:
  "dom (fst (monitor_after clock rnd ticks)) = set (map fst ISRO_SUBNET_CONFIG)"
proof (induction ticks)
  case 0
  show ?case
    by (simp only: monitor_after.simps initializeHealthMonitoring_def
        initializeHealthMonitoring_loop_dom) simp
next
  case (Suc ticks)
  obtain h n where m: "monitor_after clock rnd ticks = (h, n)"
    by (cases "monitor_after clock rnd ticks")
  show ?case
    using Suc.IH m updateHealthData_loop_dom [of ISRO_SUBNET_CONFIG "clock (Suc ticks)" rnd h n]
    by (simp add: updateHealthData_def)
qed

lemma monitor_after_in_range:
  assumes "\<forall>k. 0 \<le> rnd k \<and> rnd k < 1"
  shows "fst (monitor_after clock rnd ticks) sid = Some b \<Longrightarrow> metrics_in_range b"
proof (induction ticks arbitrary: sid b)
  case 0
  then show ?case
    using initializeHealthMonitoring_loop_in_range [OF assms, of Map.empty ISRO_SUBNET_CONFIG "clock 0" 0 sid b]
    by (simp add: initializeHealthMonitoring_def)
next
  case (Suc ticks)
  obtain h n where m: "monitor_after clock rnd ticks = (h, n)"
    by (cases "monitor_after clock rnd ticks")
  have "\<forall>sid b. h sid = Some b \<longrightarrow> metrics_in_range b"
    using Suc.IH m by simp
  then show ?case
    using Suc.prems m updateHealthData_loop_in_range [of h ISRO_SUBNET_CONFIG "clock (Suc ticks)" rnd n sid b]
    by (simp add: updateHealthData_def)
qed

section \<open>Manager: effect of each operation on the fields\<close>

lemma assign_fields [simp]:
  "next_object (assign ref f m) = next_object m"
  "activeTransfers (assign ref f m) = activeTransfers m"
  "transferQueue (assign ref f m) = transferQueue m"
  "suspended (assign ref f m) = suspended m"
  by (simp_all add: assign_def split: option.split)

lemma assign_objects:
  "objects (assign ref f m) a = (if a = ref then map_option f (objects m ref) else objects m a)"
  by (simp add: assign_def split: option.split)

lemma simulate_fields [simp]:
  "next_object (simulateStationTransfer_iteration ref k m) = next_object m"
  "transferQueue (simulateStationTransfer_iteration ref k m) = transferQueue m"
  "suspended (simulateStationTransfer_iteration ref k m) = suspended m"
  by (simp_all add: simulateStationTransfer_iteration_def Let_def split: option.split)

lemma simulate_objects:
  "objects (simulateStationTransfer_iteration ref k m) a =
     (if a = ref
      then map_option (\<lambda>s. s\<lparr>progress := min 100 ((k + 1) * (100 div transferSteps))\<rparr>) (objects m ref)
      else objects m a)"
  by (simp add: simulateStationTransfer_iteration_def Let_def assign_objects split: option.split)

lemma simulate_activeTransfers:
  "activeTransfers (simulateStationTransfer_iteration ref k m) =
     (case objects m ref of
        None \<Rightarrow> activeTransfers m
      | Some s \<Rightarrow> (activeTransfers m)(requestId s \<mapsto> ref))"
  by (simp add: simulateStationTransfer_iteration_def Let_def assign_objects split: option.split)

lemma loop_fields [simp]:
  "next_object (executeTransfer_loop rid ref stations i m) = next_object m"
  "transferQueue (executeTransfer_loop rid ref stations i m) = transferQueue m"
  by (simp_all add: executeTransfer_loop_def Let_def)

lemma loop_suspended:
  "suspended (executeTransfer_loop rid ref stations i m) =
     (if i + 1 < length stations
      then suspended m @ [\<lparr>task_request_id = rid, task_status = ref, task_stations = stations,
                            task_i = i, task_step = 0\<rparr>]
      else suspended m)"
  by (simp add: executeTransfer_loop_def Let_def)

lemma loop_objects:
  "objects (executeTransfer_loop rid ref stations i m) a =
     (if a = ref \<and> i + 1 < length stations
      then map_option (\<lambda>s. s\<lparr>currentStation := stations ! i, nextStation := stations ! (i + 1),
                              progress := min 100 ((0 + 1) * (100 div transferSteps))\<rparr>) (objects m ref)
      else objects m a)"
  by (simp add: executeTransfer_loop_def Let_def simulate_objects assign_objects option.map_comp comp_def)

lemma loop_activeTransfers:
  "activeTransfers (executeTransfer_loop rid ref stations i m) =
     (if i + 1 < length stations
      then (case objects m ref of
              None \<Rightarrow> activeTransfers m
            | Some s \<Rightarrow> (activeTransfers m)(requestId s \<mapsto> ref))
      else (activeTransfers m)(rid \<mapsto> ref))"
  by (simp add: executeTransfer_loop_def Let_def simulate_activeTransfers assign_objects
      split: option.split)

lemma new_manager_invariant: "manager_invariant new_manager"
  by (simp add: manager_invariant_def tasks_wf_def completed_full_def new_manager_def)

lemma resume_invariant:
  assumes inv: "manager_invariant m"
    and fresh: "\<forall>u \<in> set (suspended m). task_status u \<noteq> task_status t"
    and bound: "task_status t < next_object m"
    and running: "\<forall>s. objects m (task_status t) = Some s \<longrightarrow>
                    status s \<noteq> Completed \<and> requestId s = task_request_id t"
  shows "manager_invariant (resume t m)"
proof (cases "task_step t + 1 < transferSteps")
  case True
  then have r: "resume t m =
      (simulateStationTransfer_iteration (task_status t) (task_step t + 1) m)
        \<lparr>suspended := suspended m @ [t\<lparr>task_step := task_step t + 1\<rparr>]\<rparr>"
    by (simp add: resume_def Let_def)
  have "tasks_wf (resume t m)"
    using inv fresh bound running unfolding r manager_invariant_def tasks_wf_def
    by (auto simp add: simulate_objects simulate_activeTransfers split: option.splits if_splits)
  moreover have "completed_full (resume t m)"
    using inv running unfolding r manager_invariant_def completed_full_def
    by (auto simp add: simulate_objects split: if_splits)
  ultimately show ?thesis by (simp add: manager_invariant_def)
next
  case False
  define m1 where "m1 = (if task_i t + 2 = length (task_stations t)
                     then assign (task_status t) (\<lambda>s. s\<lparr>status := Completed, progress := 100\<rparr>) m
                     else m)"
  have r: "resume t m =
      executeTransfer_loop (task_request_id t) (task_status t) (task_stations t) (task_i t + 1) m1"
    using False by (simp add: resume_def Let_def m1_def)
  have "tasks_wf (resume t m)"
    using inv fresh bound running unfolding r manager_invariant_def tasks_wf_def m1_def
    by (auto simp add: loop_objects loop_suspended loop_activeTransfers assign_objects
        split: option.splits if_splits)
  moreover have "completed_full (resume t m)"
    using inv running unfolding r manager_invariant_def completed_full_def m1_def
    by (auto simp add: loop_objects assign_objects split: if_splits)
  ultimately show ?thesis by (simp add: manager_invariant_def)
qed

lemma remove_nth_distinct:
  assumes "k < length xs" and "distinct (map f xs)"
  shows "distinct (map f (take k xs @ drop (Suc k) xs))"
    and "\<forall>u \<in> set (take k xs @ drop (Suc k) xs). f u \<noteq> f (xs ! k)"
proof -
  have "xs = take k xs @ xs ! k # drop (Suc k) xs"
    using assms(1) by (rule id_take_nth_drop)
  then have "distinct (map f (take k xs @ xs ! k # drop (Suc k) xs))"
    using assms(2) by simp
  then show "distinct (map f (take k xs @ drop (Suc k) xs))"
    and "\<forall>u \<in> set (take k xs @ drop (Suc k) xs). f u \<noteq> f (xs ! k)"
    by (auto simp add: image_iff)
qed

lemma remove_nth_subset: "set (take k xs @ drop (Suc k) xs) \<subseteq> set xs"
  using set_take_subset [of k xs] set_drop_subset [of "Suc k" xs] by auto

lemma timer_fires_invariant:
  assumes inv: "manager_invariant m"
  shows "manager_invariant (timer_fires k m)"
proof (cases "k < length (suspended m)")
  case False
  then show ?thesis using inv by (simp add: timer_fires_def)
next
  case True
  let ?rest = "take k (suspended m) @ drop (Suc k) (suspended m)"
  let ?t = "suspended m ! k"
  let ?m0 = "m\<lparr>suspended := ?rest\<rparr>"
  have d: "distinct (map task_status (suspended m))"
    using inv by (simp add: manager_invariant_def tasks_wf_def)
  have t_in: "?t \<in> set (suspended m)"
    using True by simp
  have sub: "set ?rest \<subseteq> set (suspended m)"
    by (rule remove_nth_subset)
  have "tasks_wf ?m0"
    using inv sub remove_nth_distinct(1) [OF True d]
    by (auto simp add: manager_invariant_def tasks_wf_def)
  moreover have "completed_full ?m0"
    using inv by (simp add: manager_invariant_def completed_full_def)
  ultimately have inv0: "manager_invariant ?m0"
    by (simp add: manager_invariant_def)
  have fresh: "\<forall>u \<in> set (suspended ?m0). task_status u \<noteq> task_status ?t"
    using remove_nth_distinct(2) [OF True d] by simp
  have bound: "task_status ?t < next_object ?m0"
    using inv t_in by (simp add: manager_invariant_def tasks_wf_def)
  have running: "\<forall>s. objects ?m0 (task_status ?t) = Some s \<longrightarrow>
                   status s \<noteq> Completed \<and> requestId s = task_request_id ?t"
    using inv t_in by (simp add: manager_invariant_def tasks_wf_def)
  have "manager_invariant (resume ?t ?m0)"
    using inv0 fresh bound running by (rule resume_invariant)
  then show ?thesis using True by (simp add: timer_fires_def)
qed

lemma cancelTransfer_invariant:
  assumes inv: "manager_invariant m"
  shows "manager_invariant (snd (cancelTransfer transferId m))"
proof -
  have "tasks_wf (snd (cancelTransfer transferId m))"
    using inv unfolding manager_invariant_def tasks_wf_def
    by (auto simp add: cancelTransfer_def split: option.splits if_splits)
  moreover have "completed_full (snd (cancelTransfer transferId m))"
    using inv unfolding manager_invariant_def completed_full_def
    by (auto simp add: cancelTransfer_def split: option.splits if_splits)
  ultimately show ?thesis by (simp add: manager_invariant_def)
qed

text \<open>With an empty queue, the request just registered is the one taken from the queue.\<close>

lemma process_registered:
  assumes "transferQueue m = []"
  shows "processTransferQueue (register_transfer request m) =
     executeTransfer request (next_object m)
       (m\<lparr>objects := (objects m)(next_object m \<mapsto>
             \<lparr>requestId = id_req request, status = Pending, progress = 0,
              currentStation = fromStation request, nextStation = toStation request,
              estimatedTime = calculateEstimatedTime request, error = None\<rparr>),
          next_object := Suc (next_object m),
          activeTransfers := (activeTransfers m)(id_req request \<mapsto> next_object m),
          transferQueue := []\<rparr>)"
  using assms by (simp add: processTransferQueue_def register_transfer_def Let_def)

lemma executeTransfer_fields [simp]:
  "next_object (executeTransfer request ref m) = next_object m"
  "transferQueue (executeTransfer request ref m) = transferQueue m"
  by (simp_all add: executeTransfer_def Let_def)

lemma executeTransfer_objects:
  "objects (executeTransfer request ref m) a =
     (if a = ref
      then map_option
             (\<lambda>s. if fromStation request = toStation request then s\<lparr>status := Processing\<rparr>
                   else s\<lparr>status := Processing,
                          currentStation := getTransferRoute (fromStation request) (toStation request) ! 0,
                          nextStation := getTransferRoute (fromStation request) (toStation request) ! 1,
                          progress := 10\<rparr>)
             (objects m ref)
      else objects m a)"
  by (auto simp add: executeTransfer_def Let_def loop_objects assign_objects getTransferRoute_def
      transferSteps_def option.map_comp comp_def)

lemma executeTransfer_suspended:
  "suspended (executeTransfer request ref m) =
     (if fromStation request = toStation request then suspended m
      else suspended m @
             [\<lparr>task_request_id = id_req request, task_status = ref,
               task_stations = getTransferRoute (fromStation request) (toStation request),
               task_i = 0, task_step = 0\<rparr>])"
  by (simp add: executeTransfer_def Let_def loop_suspended getTransferRoute_def)

lemma executeTransfer_activeTransfers:
  "activeTransfers (executeTransfer request ref m) =
     (if fromStation request = toStation request then (activeTransfers m)(id_req request \<mapsto> ref)
      else (case objects m ref of
              None \<Rightarrow> activeTransfers m
            | Some s \<Rightarrow> (activeTransfers m)(requestId s \<mapsto> ref)))"
  by (simp add: executeTransfer_def Let_def loop_activeTransfers assign_objects getTransferRoute_def
      split: option.split)

lemma initiateTransfer_invariant:
  assumes inv: "manager_invariant m"
  shows "manager_invariant (snd (initiateTransfer h request m))"
proof (cases "fst (initiateTransfer h request m)")
  case (Inl e)
  then have "snd (initiateTransfer h request m) = m"
    by (auto simp add: initiateTransfer_def split: if_splits)
  then show ?thesis using inv by simp
next
  case (Inr i)
  have q: "transferQueue m = []"
    using inv by (simp add: manager_invariant_def tasks_wf_def)
  have r: "snd (initiateTransfer h request m) = processTransferQueue (register_transfer request m)"
    using Inr by (auto simp add: initiateTransfer_def split: if_splits)
  have "tasks_wf (snd (initiateTransfer h request m))"
    using inv unfolding r process_registered [OF q] manager_invariant_def tasks_wf_def
    by (auto simp add: executeTransfer_objects executeTransfer_suspended
        executeTransfer_activeTransfers less_Suc_eq split: if_splits)
  moreover have "completed_full (snd (initiateTransfer h request m))"
    using inv unfolding r process_registered [OF q] manager_invariant_def completed_full_def
    by (auto simp add: executeTransfer_objects split: if_splits)
  ultimately show ?thesis by (simp add: manager_invariant_def)
qed

lemma stop_fields [simp]:
  "next_object (snd (hook_stopTransfer snapshot j m)) = next_object m"
  "activeTransfers (snd (hook_stopTransfer snapshot j m)) = activeTransfers m"
  "transferQueue (snd (hook_stopTransfer snapshot j m)) = transferQueue m"
  "suspended (snd (hook_stopTransfer snapshot j m)) = suspended m"
  by (simp_all add: hook_stopTransfer_def split: option.split)

text \<open>\<open>stopTransfer\<close> leaves an object as it was, or stops one that is \<open>Processing\<close> and carries the id.\<close>

lemma stop_objects:
  "objects (snd (hook_stopTransfer snapshot j m)) a = objects m a \<or>
   (\<exists>s. objects m a = Some s \<and> status s = Processing \<and> requestId s = j \<and>
        objects (snd (hook_stopTransfer snapshot j m)) a = Some (stopped s))"
proof (cases "find (\<lambda>ref. case objects m ref of None \<Rightarrow> False | Some t \<Rightarrow> requestId t = j) snapshot")
  case None
  then show ?thesis by (simp add: hook_stopTransfer_def)
next
  case (Some ref)
  then have found: "case objects m ref of None \<Rightarrow> False | Some t \<Rightarrow> requestId t = j"
    by (auto simp add: find_Some_iff)
  then obtain t where t: "objects m ref = Some t" "requestId t = j"
    by (auto split: option.splits)
  show ?thesis
    using Some t by (auto simp add: hook_stopTransfer_def)
qed

lemma stop_invariant:
  assumes inv: "manager_invariant m"
  shows "manager_invariant (snd (hook_stopTransfer snapshot j m))"
proof -
  let ?m' = "snd (hook_stopTransfer snapshot j m)"
  have keep: "status s' \<noteq> Completed \<and> requestId s' = requestId s \<or> s' = s"
    if "objects m a = Some s" and "objects ?m' a = Some s'" for a s s'
    using that stop_objects [of snapshot j m a] by (auto simp add: stopped_def)
  have exists: "\<exists>s. objects m a = Some s" if "objects ?m' a = Some s'" for a s'
    using that stop_objects [of snapshot j m a] by metis
  have "tasks_wf ?m'"
    unfolding tasks_wf_def
  proof (intro conjI ballI allI impI)
    show "transferQueue ?m' = []"
      using inv by (simp add: manager_invariant_def tasks_wf_def)
    show "distinct (map task_status (suspended ?m'))"
      using inv by (simp add: manager_invariant_def tasks_wf_def)
    show "ref < next_object ?m'" if "activeTransfers ?m' i = Some ref" for i ref
      using inv that by (simp add: manager_invariant_def tasks_wf_def)
    show "task_status t < next_object ?m'" if "t \<in> set (suspended ?m')" for t
      using inv that by (simp add: manager_invariant_def tasks_wf_def)
    show "status s' \<noteq> Completed"
      if t: "t \<in> set (suspended ?m')" and o: "objects ?m' (task_status t) = Some s'" for t s'
    proof -
      obtain s where s: "objects m (task_status t) = Some s"
        using exists o by blast
      have "status s \<noteq> Completed"
        using inv t s by (simp add: manager_invariant_def tasks_wf_def)
      then show ?thesis using keep [OF s o] by auto
    qed
    show "requestId s' = task_request_id t"
      if t: "t \<in> set (suspended ?m')" and o: "objects ?m' (task_status t) = Some s'" for t s'
    proof -
      obtain s where s: "objects m (task_status t) = Some s"
        using exists o by blast
      have "requestId s = task_request_id t"
        using inv t s by (simp add: manager_invariant_def tasks_wf_def)
      then show ?thesis using keep [OF s o] by auto
    qed
  qed
  moreover have "completed_full ?m'"
    unfolding completed_full_def
  proof (intro allI impI)
    fix a s' assume a: "objects ?m' a = Some s'" and c: "status s' = Completed"
    obtain s where s: "objects m a = Some s"
      using exists a by blast
    have "s' = s" using keep [OF s a] c by auto
    then show "progress s' = 100"
      using inv s c by (simp add: manager_invariant_def completed_full_def)
  qed
  ultimately show ?thesis by (simp add: manager_invariant_def)
qed

lemma step_invariant: "manager_invariant m \<Longrightarrow> manager_invariant (step e m)"
  by (cases e)
    (simp_all add: initiateTransfer_invariant cancelTransfer_invariant timer_fires_invariant
      stop_invariant)

lemma run_invariant: "manager_invariant m \<Longrightarrow> manager_invariant (run es m)"
  by (induction es arbitrary: m) (simp_all add: step_invariant)










lemma resume_queue [simp]: "transferQueue (resume t m) = transferQueue m"
  by (simp add: resume_def Let_def)


lemma run_queue_empty: "transferQueue (run es new_manager) = []"
  using run_invariant [OF new_manager_invariant, of es]
  by (simp add: manager_invariant_def tasks_wf_def)

lemma initiateTransfer_accepted:
  assumes "validateTransferRequest r"
    and "isStationHealthy h (fromStation r)" and "isStationHealthy h (toStation r)"
  shows "initiateTransfer h r m = (Inr (id_req r), processTransferQueue (register_transfer r m))"
  using assms by (simp add: initiateTransfer_def)












text \<open>
  The branch of \<open>cancelTransfer\<close> for a \<open>Pending\<close> transfer, which no run reaches:
  it would assign \<open>'failed'\<close> and the message of the cancellation.
\<close>

lemma cancelTransfer_pending_branch:
  assumes "getTransferStatus m i = Some s" and "status s = Pending"
  shows "fst (cancelTransfer i m)"
    and "getTransferStatus (snd (cancelTransfer i m)) i =
           Some (s\<lparr>status := Failed, error := Some ''Transfer cancelled by user''\<rparr>)"
  using assms
  by (auto simp add: cancelTransfer_def getTransferStatus_def split: option.splits)

section \<open>Rounding to doubles\<close>

lemma binade_eq:
  assumes "2 powi e \<le> \<bar>x\<bar>" and "\<bar>x\<bar> < 2 powi (e + 1)" and "- 1022 \<le> e" and "e \<le> 1023"
  shows "binade x = e"
proof -
  let ?P = "\<lambda>e. 2 powi e \<le> \<bar>x\<bar> \<and> \<bar>x\<bar> < 2 powi (e + 1)"
  have below: "\<not> ?P d" if "d < e" for d
  proof -
    have "d + 1 \<le> e" using that by simp
    then have "(2::real) powi (d + 1) \<le> 2 powi e"
      by (intro power_int_increasing) simp_all
    then show ?thesis using assms(1) by linarith
  qed
  have nth: "[- 1022..1023] ! k = - 1022 + int k" if "- 1022 + int k \<le> 1023" for k
    using that by (rule nth_upto)
  have len: "length [- 1022..1023::int] = 2046"
    by (simp only: length_upto)
  have at_e: "[- 1022..1023] ! nat (e + 1022) = e"
    using assms(3,4) by (subst nth) simp_all
  have "find ?P [- 1022..1023] = Some e"
    unfolding find_Some_iff
  proof (intro exI [of _ "nat (e + 1022)"] conjI allI impI)
    show "nat (e + 1022) < length [- 1022..1023::int]"
      unfolding len using assms(3,4) by simp
    show "e = [- 1022..1023] ! nat (e + 1022)"
      by (simp only: at_e)
    show "2 powi ([- 1022..1023] ! nat (e + 1022)) \<le> \<bar>x\<bar>"
      using assms(1) by (simp only: at_e)
    show "\<bar>x\<bar> < 2 powi ([- 1022..1023] ! nat (e + 1022) + 1)"
      using assms(2) by (simp only: at_e)
    show "\<not> ?P ([- 1022..1023] ! j)" if j: "j < nat (e + 1022)" for j
    proof -
      have "[- 1022..1023] ! j = - 1022 + int j"
        using j assms(4) by (intro nth) simp
      then have "[- 1022..1023] ! j < e" using j by simp
      then show ?thesis by (rule below)
    qed
  qed
  then show ?thesis by (simp only: binade_def option.case)
qed

lemma to_double_in_binade:
  assumes "2 powi e \<le> x" and "x < 2 powi (e + 1)" and "- 1022 \<le> e" and "e \<le> 1023"
  shows "to_double x = of_int (round_half_even (x / 2 powi (e - 52))) * 2 powi (e - 52)"
proof -
  have "(0::real) < 2 powi e"
    by simp
  then have pos: "0 < x"
    using assms(1) by linarith
  then have "binade x = e"
    using assms by (intro binade_eq) simp_all
  then show ?thesis
    using pos by (simp add: to_double_def Let_def)
qed

text \<open>
  Ten mebibytes at priority \<open>low\<close>: the exact product is 9, the doubles give a product
  above 9 (\<open>0.1\<close> rounds up, and \<open>0.1 * 1.5\<close> is a tie that goes to the even
  neighbour above), and \<open>Math.ceil\<close> returns 10.
\<close>

lemma calculateEstimatedTime_ten_mebibytes_low:
  "calculateEstimatedTime
     \<lparr>id_req = ''t1'', fromStation = ''bangalore'', toStation = ''chennai'',
      dataSize = 10 * 1024 * 1024, priority = Low, encryptionType = AES_256, timestamp = 0,
      checksum = ''0x00...''\<rparr> = 10"
proof -
  define x1 :: real where "x1 = to_double (1 / 10)"
  define x2 :: real where "x2 = to_double (x1 * 1.5)"
  define x3 :: real where "x3 = to_double (x2 * 60)"
  have a: "x1 = 3602879701896397 / 2 ^ 55"
  proof -
    have "to_double (1 / 10)
            = of_int (round_half_even ((1 / 10) / 2 powi (- 4 - 52))) * 2 powi (- 4 - 52)"
      by (rule to_double_in_binade) (simp_all add: power_int_minus)
    also have "\<dots> = 3602879701896397 / 2 ^ 55"
      by (simp add: round_half_even_def power_int_minus Let_def)
    finally show ?thesis by (simp only: x1_def)
  qed
  have b: "x2 = 5404319552844596 / 2 ^ 55"
  proof -
    have "to_double (3602879701896397 / 2 ^ 55 * 1.5)
            = of_int (round_half_even ((3602879701896397 / 2 ^ 55 * 1.5) / 2 powi (- 3 - 52)))
                * 2 powi (- 3 - 52)"
      by (rule to_double_in_binade) (simp_all add: power_int_minus)
    also have "\<dots> = 5404319552844596 / 2 ^ 55"
      by (simp add: round_half_even_def power_int_minus Let_def)
    finally show ?thesis by (simp only: x2_def a)
  qed
  have c: "x3 = 5066549580791809 / 2 ^ 49"
  proof -
    have "to_double (5404319552844596 / 2 ^ 55 * 60)
            = of_int (round_half_even ((5404319552844596 / 2 ^ 55 * 60) / 2 powi (3 - 52)))
                * 2 powi (3 - 52)"
      by (rule to_double_in_binade) (simp_all add: power_int_minus)
    also have "\<dots> = 5066549580791809 / 2 ^ 49"
      by (simp add: round_half_even_def power_int_minus Let_def)
    finally show ?thesis by (simp only: x3_def b)
  qed
  have "calculateEstimatedTime
     \<lparr>id_req = ''t1'', fromStation = ''bangalore'', toStation = ''chennai'',
      dataSize = 10 * 1024 * 1024, priority = Low, encryptionType = AES_256, timestamp = 0,
      checksum = ''0x00...''\<rparr> = \<lceil>x3\<rceil>"
    by (simp add: calculateEstimatedTime_def priorityMultiplier_def Let_def x1_def x2_def x3_def)
  also have "\<dots> = 10"
    unfolding c by (simp add: ceiling_eq_iff)
  finally show ?thesis .
qed

section \<open>Facts about the example inputs\<close>

lemma example_health_healthy:
  "isStationHealthy example_health ''bangalore''"
  "isStationHealthy example_health ''chennai''"
  "isStationHealthy example_health ''delhi''"
  "\<not> isStationHealthy example_health ''toString''"
  by (simp_all add: example_health_def initializeHealthMonitoring_def ISRO_SUBNET_CONFIG_def
      isStationHealthy_def)

lemma example_request_valid:
  "validateTransferRequest (example_request ''t1'' ''bangalore'' ''chennai'' 1024)"
  "validateTransferRequest (example_request ''t2'' ''delhi'' ''delhi'' 1024)"
  "validateTransferRequest (example_request ''t1'' ''bangalore'' ''toString'' 1024)"
  "\<not> validateTransferRequest (example_request [] ''bangalore'' ''chennai'' 1024)"
  by (simp_all add: example_request_def validateTransferRequest_def in_ISRO_SUBNET_CONFIG_def
      ISRO_SUBNET_CONFIG_def Object_prototype_properties_def)

lemmas run_defs = example_request_def
  initiateTransfer_def
  register_transfer_def processTransferQueue_def executeTransfer_def executeTransfer_loop_def
  getTransferRoute_def assign_def simulateStationTransfer_iteration_def transferSteps_def
  new_manager_def status_and_progress_def getTransferStatus_def timer_fires_def resume_def
  cancelTransfer_def Let_def

section \<open>Cancelling\<close>







section \<open>Progress and completion\<close>

text \<open>
  C2, counterexample. A transfer from \<open>bangalore\<close> to \<open>chennai\<close> is submitted and its
  timer fires nine times: the tenth iteration of \<open>simulateStationTransfer\<close> has set the
  progress to 100, and the status is still \<open>Processing\<close> until the timer fires again.
\<close>

theorem full_progress_while_processing_counterexample:
  "status_and_progress
     (run [Initiate example_health (example_request ''t1'' ''bangalore'' ''chennai'' 1024),
           Timer 0, Timer 0, Timer 0, Timer 0, Timer 0, Timer 0, Timer 0, Timer 0, Timer 0]
        new_manager) ''t1''
   = Some (Processing, 100)"
  using example_request_valid(1) example_health_healthy(1,2)
  by (simp add: run_defs)

text \<open>
  C2, as the code has it. After any sequence of submissions, cancellations, timers and
  calls of \<open>stopTransfer\<close>,
  every \<open>TransferStatus\<close> object whose status is \<open>Completed\<close> has progress exactly
  100, those reachable through \<open>getTransferStatus\<close> included. (The converse is what
  fails: progress is 100 at the end of every hop, while the status is \<open>Processing\<close>.)
\<close>

theorem completed_has_full_progress:
  "(\<forall>ref s. objects (run es new_manager) ref = Some s \<longrightarrow> status s = Completed \<longrightarrow>
              progress s = 100)
   \<and> (\<forall>i s. getTransferStatus (run es new_manager) i = Some s \<longrightarrow> status s = Completed \<longrightarrow>
              progress s = 100)"
proof -
  have "completed_full (run es new_manager)"
    using run_invariant [OF new_manager_invariant, of es] by (simp add: manager_invariant_def)
  then show ?thesis
    by (auto simp add: completed_full_def getTransferStatus_def split: option.splits)
qed

theorem completed_has_full_progress_witness:
  "map_option status
     (getTransferStatus
        (run [Initiate example_health (example_request ''t1'' ''bangalore'' ''chennai'' 1024),
              Timer 0, Timer 0, Timer 0, Timer 0, Timer 0, Timer 0, Timer 0, Timer 0, Timer 0, Timer 0]
           new_manager) ''t1'') = Some Completed
   \<and> map_option progress
     (getTransferStatus
        (run [Initiate example_health (example_request ''t1'' ''bangalore'' ''chennai'' 1024),
              Timer 0, Timer 0, Timer 0, Timer 0, Timer 0, Timer 0, Timer 0, Timer 0, Timer 0, Timer 0]
           new_manager) ''t1'') = Some 100"
proof -
  let ?es = "[Initiate example_health (example_request ''t1'' ''bangalore'' ''chennai'' 1024),
              Timer 0, Timer 0, Timer 0, Timer 0, Timer 0, Timer 0, Timer 0, Timer 0, Timer 0, Timer 0]"
  have a: "map_option status (getTransferStatus (run ?es new_manager) ''t1'') = Some Completed"
    using example_request_valid(1) example_health_healthy(1,2)
    by (simp add: run_defs)
  then obtain s where s: "getTransferStatus (run ?es new_manager) ''t1'' = Some s" "status s = Completed"
    by auto
  have "progress s = 100"
    using completed_has_full_progress [of ?es] s by blast
  with a s show ?thesis by simp
qed

section \<open>Submitting\<close>

text \<open>
  C3, counterexample. A valid request between two healthy stations is submitted to a
  new manager: \<open>initiateTransfer\<close> returns the id, and the transfer stored under it is
  already \<open>Processing\<close> with progress 10, since \<open>processTransferQueue\<close> runs up to the
  first timer before \<open>initiateTransfer\<close> returns.
\<close>

theorem submit_leaves_pending_counterexample:
  "validateTransferRequest (example_request ''t1'' ''bangalore'' ''chennai'' 1024)
   \<and> isStationHealthy example_health ''bangalore'' \<and> isStationHealthy example_health ''chennai''
   \<and> fst (initiateTransfer example_health
             (example_request ''t1'' ''bangalore'' ''chennai'' 1024) new_manager) = Inr ''t1''
   \<and> status_and_progress
        (snd (initiateTransfer example_health
                (example_request ''t1'' ''bangalore'' ''chennai'' 1024) new_manager)) ''t1''
      = Some (Processing, 10)"
  using example_request_valid(1) example_health_healthy(1,2)
  by (simp add: run_defs)

text \<open>
  C3, as the code has it. For every valid request whose two stations are healthy, in
  every manager reached from a new one, \<open>initiateTransfer\<close> returns the id of the
  request, and the transfer stored under that id when the call returns is \<open>Processing\<close>,
  not completed: its progress is 10, or 0 when source and destination are equal.
\<close>

theorem submit_starts_processing:
  assumes "validateTransferRequest r"
    and "isStationHealthy h (fromStation r)" and "isStationHealthy h (toStation r)"
  shows "fst (initiateTransfer h r (run es new_manager)) = Inr (id_req r)
       \<and> status_and_progress (snd (initiateTransfer h r (run es new_manager))) (id_req r)
           = Some (Processing, if fromStation r = toStation r then 0 else 10)"
proof -
  let ?m = "run es new_manager"
  have q: "transferQueue ?m = []" by (rule run_queue_empty)
  have r: "initiateTransfer h r ?m = (Inr (id_req r), processTransferQueue (register_transfer r ?m))"
    using assms by (rule initiateTransfer_accepted)
  have "status_and_progress (processTransferQueue (register_transfer r ?m)) (id_req r)
           = Some (Processing, if fromStation r = toStation r then 0 else 10)"
    unfolding process_registered [OF q]
    by (simp add: status_and_progress_def getTransferStatus_def executeTransfer_activeTransfers
        executeTransfer_objects)
  then show ?thesis by (simp add: r)
qed

theorem submit_starts_processing_witness:
  "validateTransferRequest (example_request ''t2'' ''delhi'' ''delhi'' 1024)
   \<and> isStationHealthy example_health (fromStation (example_request ''t2'' ''delhi'' ''delhi'' 1024))
   \<and> isStationHealthy example_health (toStation (example_request ''t2'' ''delhi'' ''delhi'' 1024))
   \<and> status_and_progress
       (snd (initiateTransfer example_health (example_request ''t2'' ''delhi'' ''delhi'' 1024)
          (run [Initiate example_health (example_request ''t1'' ''bangalore'' ''chennai'' 1024), Timer 0]
             new_manager))) ''t2''
       = Some (Processing, 0)"
proof -
  let ?r = "example_request ''t2'' ''delhi'' ''delhi'' 1024"
  have a: "validateTransferRequest ?r" by (rule example_request_valid(2))
  have b: "isStationHealthy example_health (fromStation ?r)"
    using example_health_healthy(3) by (simp add: example_request_def)
  have c: "isStationHealthy example_health (toStation ?r)"
    using example_health_healthy(3) by (simp add: example_request_def)
  have d: "id_req ?r = ''t2''" "fromStation ?r = toStation ?r"
    by (simp_all add: example_request_def)
  show ?thesis
    using a b c
      submit_starts_processing [OF a b c,
        of "[Initiate example_health (example_request ''t1'' ''bangalore'' ''chennai'' 1024), Timer 0]"]
    by (simp only: d if_True simp_thms)
qed

section \<open>Routing\<close>

text \<open>
  C4. The route is a fixed function of the two station ids, in the manager and in the
  hook alike: \<open>[source]\<close> when source and destination are equal, the direct pair when
  one of them is \<open>bangalore\<close>, and the detour through \<open>bangalore\<close> otherwise; the three
  routes listed by the specification follow.
\<close>

theorem route_rule:
  "getTransferRoute s d =
     (if s = d then [s]
      else if s = ''bangalore'' \<or> d = ''bangalore'' then [s, d]
      else [s, ''bangalore'', d])
   \<and> hook_getTransferRoute s d = getTransferRoute s d
   \<and> getTransferRoute ''bangalore'' ''chennai'' = [''bangalore'', ''chennai'']
   \<and> getTransferRoute ''chennai'' ''delhi'' = [''chennai'', ''bangalore'', ''delhi'']
   \<and> getTransferRoute ''delhi'' ''delhi'' = [''delhi'']"
  by (simp add: getTransferRoute_def hook_getTransferRoute_def)

theorem route_rule_witness:
  "hook_getTransferRoute ''sriharikota'' ''chennai'' = [''sriharikota'', ''bangalore'', ''chennai'']"
  using route_rule [of "''sriharikota''" "''chennai''"] by simp

section \<open>Validation\<close>

text \<open>
  C5, counterexample. \<open>dataSize\<close> is a \<open>number\<close> and the test is \<open>dataSize > 0\<close>: a
  request of half a byte is accepted, although its size is below 1.
\<close>

theorem validate_half_byte_counterexample:
  "validateTransferRequest (example_request ''t1'' ''bangalore'' ''chennai'' (1 / 2))
   \<and> \<not> 1 \<le> dataSize (example_request ''t1'' ''bangalore'' ''chennai'' (1 / 2))"
  by (simp add: example_request_def validateTransferRequest_def in_ISRO_SUBNET_CONFIG_def
      ISRO_SUBNET_CONFIG_def)

text \<open>
  C5, as the code has it. For a request whose two station names are not property names
  that the configuration object inherits, validation accepts exactly when the id is not
  empty, both stations are in the registry and \<open>0 < size \<le> 100 * 1024^3\<close>; for a size
  that is a whole number of bytes this is \<open>1 \<le> size \<le> 100 * 1024^3\<close>. With a non-empty
  id and two stations of the registry, the size \<open>100 * 1024^3\<close> is accepted and the size
  \<open>100 * 1024^3 + 1\<close> is rejected.
\<close>

theorem validate_size_bounds:
  "(fromStation r \<notin> set Object_prototype_properties
      \<and> toStation r \<notin> set Object_prototype_properties \<longrightarrow>
      (validateTransferRequest r \<longleftrightarrow>
         id_req r \<noteq> [] \<and> fromStation r \<in> set (map fst ISRO_SUBNET_CONFIG)
         \<and> toStation r \<in> set (map fst ISRO_SUBNET_CONFIG)
         \<and> 0 < dataSize r \<and> dataSize r \<le> 100 * 1024 ^ 3)
      \<and> (dataSize r \<in> \<int> \<longrightarrow>
           (validateTransferRequest r \<longleftrightarrow>
              id_req r \<noteq> [] \<and> fromStation r \<in> set (map fst ISRO_SUBNET_CONFIG)
              \<and> toStation r \<in> set (map fst ISRO_SUBNET_CONFIG)
              \<and> 1 \<le> dataSize r \<and> dataSize r \<le> 100 * 1024 ^ 3)))
   \<and> (id_req r \<noteq> [] \<and> fromStation r \<in> set (map fst ISRO_SUBNET_CONFIG)
        \<and> toStation r \<in> set (map fst ISRO_SUBNET_CONFIG) \<longrightarrow>
        validateTransferRequest (r\<lparr>dataSize := 100 * 1024 ^ 3\<rparr>)
        \<and> \<not> validateTransferRequest (r\<lparr>dataSize := 100 * 1024 ^ 3 + 1\<rparr>))"
proof -
  have whole: "0 < x \<longleftrightarrow> 1 \<le> x" if "x \<in> \<int>" for x :: real
  proof -
    from that obtain k :: int where "x = of_int k" by (auto elim: Ints_cases)
    then show ?thesis by auto
  qed
  show ?thesis
    using whole [of "dataSize r"]
    by (auto simp add: validateTransferRequest_def in_ISRO_SUBNET_CONFIG_def)
qed

theorem validate_size_bounds_witness:
  "fromStation (example_request ''t1'' ''bangalore'' ''chennai'' 1024)
     \<notin> set Object_prototype_properties
   \<and> toStation (example_request ''t1'' ''bangalore'' ''chennai'' 1024)
     \<notin> set Object_prototype_properties
   \<and> dataSize (example_request ''t1'' ''bangalore'' ''chennai'' 1024) \<in> \<int>
   \<and> id_req (example_request ''t1'' ''bangalore'' ''chennai'' 1024) \<noteq> []
   \<and> fromStation (example_request ''t1'' ''bangalore'' ''chennai'' 1024)
     \<in> set (map fst ISRO_SUBNET_CONFIG)
   \<and> toStation (example_request ''t1'' ''bangalore'' ''chennai'' 1024)
     \<in> set (map fst ISRO_SUBNET_CONFIG)
   \<and> validateTransferRequest (example_request ''t1'' ''bangalore'' ''chennai'' 1024)
   \<and> validateTransferRequest (example_request ''t1'' ''bangalore'' ''chennai'' (100 * 1024 ^ 3))
   \<and> \<not> validateTransferRequest (example_request ''t1'' ''bangalore'' ''chennai'' (100 * 1024 ^ 3 + 1))
   \<and> \<not> validateTransferRequest (example_request ''t1'' ''bangalore'' ''mumbai'' 1024)"
proof -
  let ?r = "example_request ''t1'' ''bangalore'' ''chennai'' 1024"
  let ?u = "example_request ''t1'' ''bangalore'' ''mumbai'' 1024"
  have a: "dataSize ?r \<in> \<int>"
    by (simp add: example_request_def)
  have b: "id_req ?r \<noteq> [] \<and> fromStation ?r \<in> set (map fst ISRO_SUBNET_CONFIG)
           \<and> toStation ?r \<in> set (map fst ISRO_SUBNET_CONFIG)"
    by (simp add: example_request_def ISRO_SUBNET_CONFIG_def)
  have p: "fromStation ?r \<notin> set Object_prototype_properties
           \<and> toStation ?r \<notin> set Object_prototype_properties"
    by (simp add: example_request_def Object_prototype_properties_def)
  have c: "?r\<lparr>dataSize := 100 * 1024 ^ 3\<rparr>
             = example_request ''t1'' ''bangalore'' ''chennai'' (100 * 1024 ^ 3)"
    "?r\<lparr>dataSize := 100 * 1024 ^ 3 + 1\<rparr>
             = example_request ''t1'' ''bangalore'' ''chennai'' (100 * 1024 ^ 3 + 1)"
    by (simp_all add: example_request_def)
  have d: "1 \<le> dataSize ?r \<and> dataSize ?r \<le> 100 * 1024 ^ 3"
    by (simp add: example_request_def)
  have pu: "fromStation ?u \<notin> set Object_prototype_properties
           \<and> toStation ?u \<notin> set Object_prototype_properties"
    by (simp add: example_request_def Object_prototype_properties_def)
  have u: "toStation ?u \<notin> set (map fst ISRO_SUBNET_CONFIG)"
    by (simp add: example_request_def ISRO_SUBNET_CONFIG_def)
  show ?thesis
    using a b p d pu u validate_size_bounds [of ?r] validate_size_bounds [of ?u]
    unfolding c by blast
qed

section \<open>Health clamping\<close>

text \<open>
  C6. With every draw of \<open>Math.random()\<close> in \<open>[0, 1)\<close>, after any number of refresh
  ticks from the initial snapshot every station of the configuration has a snapshot, and
  in it uptime and consensus rate lie in \<open>[0.97, 1.0]\<close>, the network latency in
  \<open>[30, 150]\<close> and the data throughput in \<open>[200, 2000]\<close>.
\<close>

theorem health_metrics_stay_in_range:
  assumes "\<forall>k. 0 \<le> rnd k \<and> rnd k < 1"
  shows "\<forall>sid \<in> set (map fst ISRO_SUBNET_CONFIG).
           \<exists>health. fst (monitor_after clock rnd ticks) sid = Some health \<and> metrics_in_range health"
proof
  fix sid assume "sid \<in> set (map fst ISRO_SUBNET_CONFIG)"
  then have "sid \<in> dom (fst (monitor_after clock rnd ticks))"
    by (simp only: monitor_after_dom)
  then obtain health where h: "fst (monitor_after clock rnd ticks) sid = Some health"
    by blast
  then have "metrics_in_range health"
    by (rule monitor_after_in_range [OF assms])
  with h show "\<exists>health. fst (monitor_after clock rnd ticks) sid = Some health \<and> metrics_in_range health"
    by blast
qed

theorem health_metrics_stay_in_range_witness:
  "(\<forall>k::nat. (0::real) \<le> 1 / 2 \<and> (1 / 2 :: real) < 1) \<and>
   ''delhi'' \<in> set (map fst ISRO_SUBNET_CONFIG) \<and>
   (\<exists>health. fst (monitor_after (\<lambda>k. 1000 * int k) (\<lambda>k. 1 / 2) 3) ''delhi'' = Some health
              \<and> metrics_in_range health)"
proof -
  have r: "\<forall>k::nat. (0::real) \<le> (\<lambda>k. 1 / 2) k \<and> (\<lambda>k. 1 / 2 :: real) k < 1" by simp
  have d: "''delhi'' \<in> set (map fst ISRO_SUBNET_CONFIG)"
    by (simp add: ISRO_SUBNET_CONFIG_def)
  show ?thesis
    using health_metrics_stay_in_range [OF r, of "\<lambda>k. 1000 * int k" 3, THEN bspec, OF d] d
    by simp
qed

section \<open>Rejected submissions\<close>

text \<open>
  C7. When the request fails validation, or its source or its destination is not
  healthy, \<open>initiateTransfer\<close> ends with the error (\<open>Invalid transfer request\<close> in the
  first case, \<open>One or both stations are unhealthy\<close> in the second) and the manager is
  unchanged: no \<open>TransferStatus\<close> is created, \<open>activeTransfers\<close> and the queue are as
  before.
\<close>

theorem rejected_transfer_changes_nothing:
  assumes "\<not> validateTransferRequest r \<or> \<not> isStationHealthy h (fromStation r)
           \<or> \<not> isStationHealthy h (toStation r)"
  shows "initiateTransfer h r m =
           (Inl (if validateTransferRequest r then Stations_unhealthy else Invalid_transfer_request), m)"
  using assms by (auto simp add: initiateTransfer_def)

theorem rejected_transfer_changes_nothing_witness:
  "\<not> validateTransferRequest (example_request [] ''bangalore'' ''chennai'' 1024)
   \<and> initiateTransfer example_health (example_request [] ''bangalore'' ''chennai'' 1024) new_manager
       = (Inl Invalid_transfer_request, new_manager)
   \<and> \<not> isStationHealthy example_health (toStation (example_request ''t1'' ''bangalore'' ''toString'' 1024))
   \<and> initiateTransfer example_health (example_request ''t1'' ''bangalore'' ''toString'' 1024) new_manager
       = (Inl Stations_unhealthy, new_manager)"
proof -
  have a: "\<not> validateTransferRequest (example_request [] ''bangalore'' ''chennai'' 1024)"
    by (rule example_request_valid(4))
  have b: "\<not> isStationHealthy example_health
               (toStation (example_request ''t1'' ''bangalore'' ''toString'' 1024))"
    using example_health_healthy(4) by (simp add: example_request_def)
  show ?thesis
    using a b example_request_valid(3)
      rejected_transfer_changes_nothing
        [of "example_request [] ''bangalore'' ''chennai'' 1024" example_health new_manager]
      rejected_transfer_changes_nothing
        [of "example_request ''t1'' ''bangalore'' ''toString'' 1024" example_health new_manager]
    by simp
qed

section \<open>A transfer from a station to itself\<close>




section \<open>Submitting an id again\<close>

text \<open>
  C10. A valid request between healthy stations whose id already names a stored
  transfer is not rejected. \<open>initiateTransfer\<close> returns the id; it registers a new
  object, \<open>Pending\<close> with progress 0, under the id in place of the old one, puts the
  request into the queue, and goes on to process the queue; when it returns the id names
  the new object. Nothing compares the id with the ids in use.
\<close>

theorem duplicate_id_overwrites:
  assumes "validateTransferRequest r"
    and "isStationHealthy h (fromStation r)" and "isStationHealthy h (toStation r)"
    and "activeTransfers (run es new_manager) (id_req r) = Some old"
  shows "let m = run es new_manager;
             fresh = \<lparr>requestId = id_req r, status = Pending, progress = 0,
                      currentStation = fromStation r, nextStation = toStation r,
                      estimatedTime = calculateEstimatedTime r, error = None\<rparr>
         in initiateTransfer h r m = (Inr (id_req r), processTransferQueue (register_transfer r m))
          \<and> next_object m \<noteq> old
          \<and> objects (register_transfer r m) (next_object m) = Some fresh
          \<and> activeTransfers (register_transfer r m) (id_req r) = Some (next_object m)
          \<and> transferQueue (register_transfer r m) = [r]
          \<and> activeTransfers (snd (initiateTransfer h r m)) (id_req r) = Some (next_object m)"
proof -
  define m where "m = run es new_manager"
  have q: "transferQueue m = []"
    by (simp add: m_def run_queue_empty)
  have inv: "manager_invariant m"
    by (simp add: m_def run_invariant new_manager_invariant)
  have accepted: "initiateTransfer h r m = (Inr (id_req r), processTransferQueue (register_transfer r m))"
    using assms(1,2,3) by (rule initiateTransfer_accepted)
  have "old < next_object m"
    using inv assms(4) by (auto simp add: manager_invariant_def tasks_wf_def m_def)
  then have new: "next_object m \<noteq> old" by simp
  have reg: "objects (register_transfer r m) (next_object m) =
               Some \<lparr>requestId = id_req r, status = Pending, progress = 0,
                      currentStation = fromStation r, nextStation = toStation r,
                      estimatedTime = calculateEstimatedTime r, error = None\<rparr>"
    "activeTransfers (register_transfer r m) (id_req r) = Some (next_object m)"
    "transferQueue (register_transfer r m) = [r]"
    using q by (simp_all add: register_transfer_def Let_def)
  have "activeTransfers (processTransferQueue (register_transfer r m)) (id_req r) = Some (next_object m)"
    unfolding process_registered [OF q]
    by (simp add: executeTransfer_activeTransfers)
  then show ?thesis
    using accepted new reg unfolding Let_def m_def [symmetric] by simp
qed

theorem duplicate_id_overwrites_witness:
  "validateTransferRequest (example_request ''t1'' ''bangalore'' ''chennai'' 1024)
   \<and> isStationHealthy example_health (fromStation (example_request ''t1'' ''bangalore'' ''chennai'' 1024))
   \<and> isStationHealthy example_health (toStation (example_request ''t1'' ''bangalore'' ''chennai'' 1024))
   \<and> activeTransfers
       (run [Initiate example_health (example_request ''t1'' ''bangalore'' ''chennai'' 1024),
             Timer 0, Timer 0, Timer 0, Timer 0, Timer 0, Timer 0, Timer 0, Timer 0, Timer 0, Timer 0]
          new_manager) ''t1'' = Some 0
   \<and> fst (initiateTransfer example_health (example_request ''t1'' ''bangalore'' ''chennai'' 1024)
       (run [Initiate example_health (example_request ''t1'' ''bangalore'' ''chennai'' 1024),
             Timer 0, Timer 0, Timer 0, Timer 0, Timer 0, Timer 0, Timer 0, Timer 0, Timer 0, Timer 0]
          new_manager)) = Inr ''t1''"
proof -
  let ?r = "example_request ''t1'' ''bangalore'' ''chennai'' 1024"
  let ?es = "[Initiate example_health ?r,
              Timer 0, Timer 0, Timer 0, Timer 0, Timer 0, Timer 0, Timer 0, Timer 0, Timer 0, Timer 0]"
  have f: "id_req ?r = ''t1''" "fromStation ?r = ''bangalore''" "toStation ?r = ''chennai''"
    by (simp_all add: example_request_def)
  have a: "validateTransferRequest ?r" by (rule example_request_valid(1))
  have b: "isStationHealthy example_health (fromStation ?r)"
    using example_health_healthy(1) by (simp add: f)
  have c: "isStationHealthy example_health (toStation ?r)"
    using example_health_healthy(2) by (simp add: f)
  have d: "activeTransfers (run ?es new_manager) (id_req ?r) = Some 0"
    using example_request_valid(1) example_health_healthy(1,2)
    by (simp add: run_defs)
  have "fst (initiateTransfer example_health ?r (run ?es new_manager)) = Inr (id_req ?r)"
    using duplicate_id_overwrites [OF a b c d] unfolding Let_def by simp
  then show ?thesis
    using a b c d unfolding f by blast
qed

end
